theory Spec2Isabelle
  imports
    Complex_Main
    "HOL-Library.Product_Lexorder"
    "HOL-Library.List_Lexorder"
    "HOL-Library.Char_ord"
    "HOL-Library.AList"
    "HOL-Library.Multiset"
begin

section \<open>Epsilon-greedy arm allocation (moe/bandit/epsilon\_greedy.py)\<close>

subsection \<open>binary64 arithmetic\<close>

text \<open>
  The allocation is computed in \<open>numpy.float64\<close> and Python \<open>float\<close>, both IEEE-754
  binary64. A finite binary64 value is a rational number, so a float is a \<open>rat\<close> here and
  every arithmetic operation of the source is the exact operation followed by
  \<open>float64\<close>, rounding to the nearest value with a 53-bit significand, ties to even.
  The exponent range is not bounded: overflow to infinity and gradual underflow
  (magnitudes outside \<open>2^-1022 .. 2^1024\<close>) are outside the model, and so are NaN and
  the sign of zero.
\<close>

definition pow2 :: "int \<Rightarrow> rat" where
  "pow2 e = (if 0 \<le> e then 2 ^ nat e else 1 / 2 ^ nat (- e))"

text \<open>Number of binary digits of a positive integer.\<close>

function bitlen :: "int \<Rightarrow> int" where
  "bitlen n = (if n \<le> 0 then 0 else 1 + bitlen (n div 2))"
  by pat_completeness auto
termination
  by (relation "measure nat") auto

declare bitlen.simps [simp del]

text \<open>Round to the nearest integer, a tie to the even one.\<close>

definition rne :: "rat \<Rightarrow> int" where
  "rne x = (let f = \<lfloor>x\<rfloor>; d = x - of_int f
            in if d < 1 / 2 then f
               else if 1 / 2 < d then f + 1
               else if even f then f else f + 1)"

text \<open>The binary exponent of a non-zero \<open>x\<close>: \<open>2^e \<le> |x| < 2^(e+1)\<close>.\<close>

definition expo :: "rat \<Rightarrow> int" where
  "expo x = (let (a, b) = quotient_of \<bar>x\<bar>;
                 d = bitlen a - bitlen b
             in if pow2 d \<le> \<bar>x\<bar> then d else d - 1)"

definition float64 :: "rat \<Rightarrow> rat" where
  "float64 x = (if x = 0 then 0
                else let q = expo x - 52 in of_int (rne (x / pow2 q)) * pow2 q)"

subsection \<open>Data model\<close>

text \<open>
  The exceptions the method body can raise: the explicit
  \<open>ValueError('sample_arms are empty!')\<close>, and the implicit ones of indexing an empty
  list, unpacking an empty sequence, dividing a float by zero and \<open>+=\<close> on a missing key.
\<close>

datatype error =
    ValueError string
  | IndexError
  | ZeroDivisionError
  | KeyError string

text \<open>One arm's statistics: the attributes \<open>win\<close>, \<open>loss\<close> and \<open>total\<close> the method reads.\<close>

record sampled_arm =
  win :: int
  loss :: int
  total :: int

text \<open>
  A Python dict with string keys, as the list of its items in iteration order. The keys
  of a dict are unique: \<open>distinct (map fst d)\<close>.
\<close>

type_synonym 'v dict = "(string \<times> 'v) list"

record historical_info =
  arms_sampled :: "sampled_arm dict"

text \<open>
  Modelled from the spec: the property \<open>num_arms\<close> of the historical-info class, which
  is not part of this file, is the derived count of distinct keys of \<open>arms_sampled\<close>.
\<close>

definition num_arms :: "historical_info \<Rightarrow> nat" where
  "num_arms h = length (arms_sampled h)"

text \<open>
  The receiver: the attributes \<open>_historical_info\<close> and \<open>_epsilon\<close> of \<open>self\<close>;
  epsilon is a Python float.
\<close>

record epsilon_greedy =
  historical_info :: historical_info
  epsilon :: rat

subsection \<open>The method \<open>allocate_arms\<close>\<close>

text \<open>Python's \<open>x / y\<close> on floats raises on a zero divisor.\<close>

definition truediv :: "rat \<Rightarrow> rat \<Rightarrow> error + rat" where
  "truediv x y = (if y = 0 then Inl ZeroDivisionError else Inr (float64 (x / y)))"

text \<open>
  \<open>numpy.float64(win - loss) / total if total > 0 else 0\<close>: the difference is an exact
  integer, converted to binary64; the divisor is converted too, and is not zero under
  the guard.
\<close>

definition avg_payoff :: "sampled_arm \<Rightarrow> rat" where
  "avg_payoff sampled_arm =
     (if total sampled_arm > 0
      then float64 (float64 (of_int (win sampled_arm - loss sampled_arm))
                    / float64 (of_int (total sampled_arm)))
      else 0)"

text \<open>The first loop: one \<open>(avg_payoff, arm_name)\<close> tuple per item of the dict.\<close>

definition payoff_name_list :: "sampled_arm dict \<Rightarrow> (rat \<times> string) list" where
  "payoff_name_list arms =
     map (\<lambda>(arm_name, sampled_arm). (avg_payoff sampled_arm, arm_name)) arms"

text \<open>
  \<open>list.sort(reverse=True)\<close> on tuples: descending in the lexicographic order of
  (payoff, name), strings compared character by character.
\<close>

definition sort_reverse :: "(rat \<times> string) list \<Rightarrow> (rat \<times> string) list" where
  "sort_reverse xs = rev (sort xs)"

text \<open>The second loop: \<open>arms_to_allocations[arm_name] = epsilon_allocation\<close> for every key.\<close>

primrec set_allocations :: "string list \<Rightarrow> rat \<Rightarrow> rat dict \<Rightarrow> rat dict" where
  "set_allocations [] v d = d"
| "set_allocations (arm_name # rest) v d = set_allocations rest v (AList.update arm_name v d)"

text \<open>
  The third loop: \<open>arms_to_allocations[winning_arm_name] += winning_arm_allocation\<close>,
  a binary64 addition, which raises \<open>KeyError\<close> on a key that is not in the dict.
\<close>

primrec add_winning :: "string list \<Rightarrow> rat \<Rightarrow> rat dict \<Rightarrow> error + rat dict" where
  "add_winning [] w d = Inr d"
| "add_winning (winning_arm_name # rest) w d =
     (case map_of d winning_arm_name of
        None \<Rightarrow> Inl (KeyError winning_arm_name)
      | Some v \<Rightarrow> add_winning rest w (AList.update winning_arm_name (float64 (v + w)) d))"

definition allocate_arms :: "epsilon_greedy \<Rightarrow> error + rat dict" where
  "allocate_arms self =
     (let arms = arms_sampled (historical_info self);
          n = num_arms (historical_info self)
      in if arms = [] then Inl (ValueError ''sample_arms are empty!'')
         else
           (let avg_payoff_arm_name_list = sort_reverse (payoff_name_list arms)
            in (case avg_payoff_arm_name_list of
                  [] \<Rightarrow> Inl IndexError
                | (best_payoff, _) # _ \<Rightarrow>
                   (let winning_arm_payoff_name_list =
                          filter (\<lambda>avg_payoff_arm_name. fst avg_payoff_arm_name = best_payoff)
                            avg_payoff_arm_name_list
                    in if winning_arm_payoff_name_list = []
                       then Inl (ValueError ''need more than 0 values to unpack'')
                       else
                        (let winning_arm_name_list = map snd winning_arm_payoff_name_list;
                             num_winning_arms = length winning_arm_name_list
                         in (case truediv (epsilon self) (float64 (of_nat n)) of
                               Inl e \<Rightarrow> Inl e
                             | Inr epsilon_allocation \<Rightarrow>
                                (let arms_to_allocations =
                                       set_allocations (map fst arms) epsilon_allocation []
                                 in (case truediv (float64 (1 - epsilon self))
                                            (float64 (of_nat num_winning_arms)) of
                                       Inl e \<Rightarrow> Inl e
                                     | Inr winning_arm_allocation \<Rightarrow>
                                         add_winning winning_arm_name_list
                                           winning_arm_allocation arms_to_allocations))))))))"

text \<open>
  The same body, statement by statement, on the state it runs in: the receiver and the
  two local objects it mutates, the list \<open>avg_payoff_arm_name_list\<close> (\<open>append\<close>,
  \<open>sort\<close>) and the dict \<open>arms_to_allocations\<close> (item assignment, \<open>+=\<close>). Both
  are created in the body; an exception leaves the state as it is at the raise.
\<close>

record frame =
  receiver :: epsilon_greedy
  avg_payoff_arm_name_list :: "(rat \<times> string) list"
  arms_to_allocations :: "rat dict"

text \<open>\<open>avg_payoff_arm_name_list.append((avg_payoff, arm_name))\<close>\<close>

definition append_payoff :: "string \<times> sampled_arm \<Rightarrow> frame \<Rightarrow> frame" where
  "append_payoff item s =
     s\<lparr>avg_payoff_arm_name_list :=
         avg_payoff_arm_name_list s @ [(avg_payoff (snd item), fst item)]\<rparr>"

text \<open>\<open>avg_payoff_arm_name_list.sort(reverse=True)\<close>\<close>

definition sort_payoffs :: "frame \<Rightarrow> frame" where
  "sort_payoffs s = s\<lparr>avg_payoff_arm_name_list := sort_reverse (avg_payoff_arm_name_list s)\<rparr>"

text \<open>\<open>arms_to_allocations[arm_name] = epsilon_allocation\<close>\<close>

definition set_item :: "rat \<Rightarrow> string \<Rightarrow> frame \<Rightarrow> frame" where
  "set_item v arm_name s =
     s\<lparr>arms_to_allocations := AList.update arm_name v (arms_to_allocations s)\<rparr>"

text \<open>The loop of \<open>arms_to_allocations[winning_arm_name] += winning_arm_allocation\<close>.\<close>

primrec add_items :: "string list \<Rightarrow> rat \<Rightarrow> frame \<Rightarrow> (error + rat dict) \<times> frame" where
  "add_items [] w s = (Inr (arms_to_allocations s), s)"
| "add_items (winning_arm_name # rest) w s =
     (case map_of (arms_to_allocations s) winning_arm_name of
        None \<Rightarrow> (Inl (KeyError winning_arm_name), s)
      | Some v \<Rightarrow>
          add_items rest w
            (s\<lparr>arms_to_allocations :=
                 AList.update winning_arm_name (float64 (v + w)) (arms_to_allocations s)\<rparr>))"

text \<open>The call: its result or exception, and the state it ends in.\<close>

definition allocate_arms_call :: "epsilon_greedy \<Rightarrow> (error + rat dict) \<times> frame" where
  "allocate_arms_call self =
     (let s0 = \<lparr>receiver = self, avg_payoff_arm_name_list = [], arms_to_allocations = []\<rparr>;
          arms = arms_sampled (historical_info (receiver s0));
          n = num_arms (historical_info (receiver s0))
      in if arms = [] then (Inl (ValueError ''sample_arms are empty!''), s0)
         else
           (let s1 = sort_payoffs (fold append_payoff arms s0)
            in (case avg_payoff_arm_name_list s1 of
                  [] \<Rightarrow> (Inl IndexError, s1)
                | (best_payoff, _) # _ \<Rightarrow>
                   (let winning_arm_payoff_name_list =
                          filter (\<lambda>avg_payoff_arm_name. fst avg_payoff_arm_name = best_payoff)
                            (avg_payoff_arm_name_list s1)
                    in if winning_arm_payoff_name_list = []
                       then (Inl (ValueError ''need more than 0 values to unpack''), s1)
                       else
                        (let winning_arm_name_list = map snd winning_arm_payoff_name_list;
                             num_winning_arms = length winning_arm_name_list
                         in (case truediv (epsilon (receiver s1)) (float64 (of_nat n)) of
                               Inl e \<Rightarrow> (Inl e, s1)
                             | Inr epsilon_allocation \<Rightarrow>
                                (let s2 = fold (set_item epsilon_allocation)
                                            (map fst (arms_sampled (historical_info (receiver s1))))
                                            s1
                                 in (case truediv (float64 (1 - epsilon (receiver s2)))
                                            (float64 (of_nat num_winning_arms)) of
                                       Inl e \<Rightarrow> (Inl e, s2)
                                     | Inr winning_arm_allocation \<Rightarrow>
                                         add_items winning_arm_name_list
                                           winning_arm_allocation s2))))))))"

subsection \<open>Notions the specification is stated in\<close>

text \<open>
  The maximum average payoff over all arms, the arms that achieve it, and their number.
\<close>

definition max_avg_payoff :: "sampled_arm dict \<Rightarrow> rat" where
  "max_avg_payoff arms = Max (set (map (\<lambda>(arm_name, sampled_arm). avg_payoff sampled_arm) arms))"

definition winning_arm :: "sampled_arm dict \<Rightarrow> sampled_arm \<Rightarrow> bool" where
  "winning_arm arms sampled_arm \<longleftrightarrow> avg_payoff sampled_arm = max_avg_payoff arms"

definition num_winning :: "sampled_arm dict \<Rightarrow> nat" where
  "num_winning arms = length (filter (\<lambda>(arm_name, sampled_arm). winning_arm arms sampled_arm) arms)"

subsection \<open>The example of the docstring\<close>

text \<open>
  Three arms: \<open>arm1\<close> and \<open>arm2\<close> with average payoff 0.5 and the new arm \<open>arm3\<close>;
  epsilon is the float literal \<open>0.12\<close>.
\<close>

definition doc_arms :: "sampled_arm dict" where
  "doc_arms = [(''arm1'', \<lparr>win = 5, loss = 0, total = 10\<rparr>),
               (''arm2'', \<lparr>win = 5, loss = 0, total = 10\<rparr>),
               (''arm3'', \<lparr>win = 0, loss = 0, total = 0\<rparr>)]"

definition doc_example :: epsilon_greedy where
  "doc_example = \<lparr>historical_info = \<lparr>arms_sampled = doc_arms\<rparr>, epsilon = float64 (12 / 100)\<rparr>"

subsection \<open>An all-tied input\<close>



section \<open>Properties of the rounding\<close>

lemma pow2_powi: "pow2 e = 2 powi e"
  by (simp add: pow2_def power_int_def inverse_eq_divide power_one_over)

lemma pow2_pos [simp]: "0 < pow2 e"
  by (simp add: pow2_powi zero_less_power_int)

lemma pow2_nz [simp]: "pow2 e \<noteq> 0"
  using pow2_pos[of e] by linarith

lemma pow2_nonneg [simp]: "0 \<le> pow2 e"
  using pow2_pos[of e] by linarith

lemma pow2_add: "pow2 (a + b) = pow2 a * pow2 b"
  by (simp add: pow2_powi power_int_add)

lemma pow2_mono: "a \<le> b \<Longrightarrow> pow2 a \<le> pow2 b"
  by (simp add: pow2_powi power_int_increasing)

lemma pow2_nat: "pow2 (int n) = 2 ^ n"
  by (simp add: pow2_def)

lemma pow2_0 [simp]: "pow2 0 = 1"
  by (simp add: pow2_def)

lemma bitlen_bounds: "0 < n \<Longrightarrow> 1 \<le> bitlen n \<and> 2 ^ nat (bitlen n - 1) \<le> n \<and> n < 2 ^ nat (bitlen n)"
proof (induction n rule: bitlen.induct)
  case (1 n)
  show ?case
  proof (cases "n = 1")
    case True
    have "bitlen 1 = 1" by (simp add: bitlen.simps[of 1] bitlen.simps[of 0])
    with True show ?thesis by simp
  next
    case False
    with "1.prems" have h: "0 < n div 2" by simp
    from "1.prems" have n: "\<not> n \<le> 0" by simp
    from "1.IH"[OF n h] have ih: "1 \<le> bitlen (n div 2)" "2 ^ nat (bitlen (n div 2) - 1) \<le> n div 2"
      "n div 2 < 2 ^ nat (bitlen (n div 2))" by simp_all
    have b: "bitlen n = 1 + bitlen (n div 2)" using n by (simp add: bitlen.simps[of n])
    have e1: "nat (bitlen n - 1) = Suc (nat (bitlen (n div 2) - 1))" using b ih(1) by simp
    have e2: "nat (bitlen n) = Suc (nat (bitlen (n div 2)))" using b ih(1) by simp
    have "2 * 2 ^ nat (bitlen (n div 2) - 1) \<le> n" using ih(2) by linarith
    moreover have "n < 2 * 2 ^ nat (bitlen (n div 2))" using ih(3) by linarith
    ultimately show ?thesis using b ih(1) e1 e2 by simp
  qed
qed


lemma rne_of_int [simp]: "rne (of_int n) = n"
  by (simp add: rne_def)

lemma rne_mono: "x \<le> y \<Longrightarrow> rne x \<le> rne y"
proof -
  assume xy: "x \<le> y"
  have fl: "\<lfloor>x\<rfloor> \<le> \<lfloor>y\<rfloor>" using xy by (rule floor_mono)
  have lo: "\<lfloor>y\<rfloor> \<le> rne y" by (simp add: rne_def Let_def)
  have hi: "rne x \<le> \<lfloor>x\<rfloor> + 1" by (simp add: rne_def Let_def)
  show ?thesis
  proof (cases "\<lfloor>x\<rfloor> = \<lfloor>y\<rfloor>")
    case True
    then show ?thesis using xy by (auto simp: rne_def Let_def)
  next
    case False
    with fl have "\<lfloor>x\<rfloor> + 1 \<le> \<lfloor>y\<rfloor>" by simp
    with lo hi show ?thesis by linarith
  qed
qed

lemma pow2_less_cancel: "pow2 a < pow2 b \<Longrightarrow> a < b"
  by (rule ccontr) (use pow2_mono[of b a] in simp)

lemma pow2_le_cancel: "pow2 a \<le> pow2 b \<Longrightarrow> a \<le> b"
proof (rule ccontr)
  assume le: "pow2 a \<le> pow2 b" and n: "\<not> a \<le> b"
  then have "pow2 b < pow2 a"
    by (simp add: pow2_powi power_int_strict_increasing)
  with le show False by simp
qed

lemma pow2_of_int_power: "0 \<le> k \<Longrightarrow> pow2 k = of_int (2 ^ nat k)"
  by (simp add: pow2_def)

lemma pow2_diff: "pow2 (a - b) = pow2 a / pow2 b"
proof -
  have "pow2 a = pow2 (a - b) * pow2 b" using pow2_add[of "a - b" b] by simp
  then show ?thesis by simp
qed

lemma expo_bounds:
  assumes "x \<noteq> 0"
  shows "pow2 (expo x) \<le> \<bar>x\<bar> \<and> \<bar>x\<bar> < pow2 (expo x + 1)"
proof -
  obtain a b where q: "quotient_of \<bar>x\<bar> = (a, b)" by (cases "quotient_of \<bar>x\<bar>")
  have b: "0 < b" using q by (rule quotient_of_denom_pos)
  have x: "\<bar>x\<bar> = of_int a / of_int b" using q by (rule quotient_of_div)
  have xpos: "0 < \<bar>x\<bar>" using assms by simp
  have a: "0 < a" using xpos b unfolding x by (simp add: zero_less_divide_iff)
  define la lb where "la = bitlen a" and "lb = bitlen b"
  have A: "1 \<le> la" "2 ^ nat (la - 1) \<le> a" "a < 2 ^ nat la"
    using bitlen_bounds[OF a] by (simp_all add: la_def)
  have B: "1 \<le> lb" "2 ^ nat (lb - 1) \<le> b" "b < 2 ^ nat lb"
    using bitlen_bounds[OF b] by (simp_all add: lb_def)
  have A1: "pow2 (la - 1) \<le> of_int a" 
    using A(1,2) by (simp add: pow2_of_int_power del: of_int_power)
  have A2: "of_int a < pow2 la"
    using A(1,3) by (simp add: pow2_of_int_power del: of_int_power)
  have B1: "pow2 (lb - 1) \<le> of_int b" 
    using B(1,2) by (simp add: pow2_of_int_power del: of_int_power)
  have B2: "of_int b < pow2 lb"
    using B(1,3) by (simp add: pow2_of_int_power del: of_int_power)
  have bq: "(0::rat) < of_int b" using b by simp
  have lo: "pow2 (la - lb - 1) \<le> \<bar>x\<bar>"
  proof -
    have "pow2 (la - lb - 1) = pow2 (la - 1) / pow2 lb"
      using pow2_diff[of "la - 1" lb] by (simp add: algebra_simps)
    also have "\<dots> \<le> of_int a / pow2 lb"
      using A1 by (simp add: divide_right_mono)
    also have "\<dots> \<le> of_int a / of_int b"
      using B2 bq a by (simp add: frac_le)
    finally show ?thesis by (simp add: x)
  qed
  have hi: "\<bar>x\<bar> < pow2 (la - lb + 1)"
  proof -
    have "of_int a / of_int b < pow2 la / of_int b"
      using A2 bq by (simp add: divide_strict_right_mono)
    also have "\<dots> \<le> pow2 la / pow2 (lb - 1)"
      using B1 by (simp add: frac_le)
    also have "\<dots> = pow2 (la - lb + 1)"
      using pow2_diff[of la "lb - 1"] by (simp add: algebra_simps)
    finally show ?thesis by (simp add: x)
  qed
  have e: "expo x = (if pow2 (la - lb) \<le> \<bar>x\<bar> then la - lb else la - lb - 1)"
    by (simp add: expo_def q la_def lb_def)
  show ?thesis using lo hi by (simp add: e)
qed

lemma expo_unique:
  assumes "pow2 e \<le> \<bar>x\<bar>" "\<bar>x\<bar> < pow2 (e + 1)"
  shows "expo x = e"
proof -
  have "0 < \<bar>x\<bar>" using assms(1) pow2_pos[of e] by linarith
  then have x: "x \<noteq> 0" by simp
  from expo_bounds[OF x] have b: "pow2 (expo x) \<le> \<bar>x\<bar>" "\<bar>x\<bar> < pow2 (expo x + 1)" by simp_all
  have "pow2 (expo x) < pow2 (e + 1)" using b(1) assms(2) by linarith
  then have 1: "expo x < e + 1" by (rule pow2_less_cancel)
  have "pow2 e < pow2 (expo x + 1)" using b(2) assms(1) by linarith
  then have 2: "e < expo x + 1" by (rule pow2_less_cancel)
  from 1 2 show ?thesis by simp
qed


lemma float64_0 [simp]: "float64 0 = 0"
  by (simp add: float64_def)

lemma pow2_52: "pow2 52 = 2 ^ 52" and pow2_53: "pow2 53 = 2 ^ 53"
  using pow2_nat[of 52] pow2_nat[of 53] by simp_all

lemma float64_scaled:
  assumes "x \<noteq> 0"
  shows "float64 x = of_int (rne (x / pow2 (expo x - 52))) * pow2 (expo x - 52)"
    and "2 ^ 52 \<le> \<bar>x / pow2 (expo x - 52)\<bar>"
    and "\<bar>x / pow2 (expo x - 52)\<bar> < 2 ^ 53"
proof -
  show "float64 x = of_int (rne (x / pow2 (expo x - 52))) * pow2 (expo x - 52)"
    using assms by (simp add: float64_def Let_def)
  from expo_bounds[OF assms]
  have b: "pow2 (expo x) \<le> \<bar>x\<bar>" "\<bar>x\<bar> < pow2 (expo x + 1)" by simp_all
  have abs: "\<bar>x / pow2 (expo x - 52)\<bar> = \<bar>x\<bar> / pow2 (expo x - 52)"
    by (simp add: abs_divide)
  have "pow2 (expo x) / pow2 (expo x - 52) \<le> \<bar>x\<bar> / pow2 (expo x - 52)"
    using b(1) by (simp add: divide_right_mono)
  moreover have "pow2 (expo x) / pow2 (expo x - 52) = pow2 52"
    using pow2_diff[of "expo x" "expo x - 52"] by simp
  ultimately show "2 ^ 52 \<le> \<bar>x / pow2 (expo x - 52)\<bar>"
    by (simp add: abs pow2_52)
  have "\<bar>x\<bar> / pow2 (expo x - 52) < pow2 (expo x + 1) / pow2 (expo x - 52)"
    using b(2) by (simp add: divide_strict_right_mono)
  moreover have "pow2 (expo x + 1) / pow2 (expo x - 52) = pow2 53"
    using pow2_diff[of "expo x + 1" "expo x - 52"] by simp
  ultimately show "\<bar>x / pow2 (expo x - 52)\<bar> < 2 ^ 53"
    by (simp add: abs pow2_53)
qed



lemma float64_range:
  assumes "0 < x"
  shows "pow2 (expo x) \<le> float64 x" and "float64 x \<le> pow2 (expo x + 1)"
proof -
  have nz: "x \<noteq> 0" using assms by simp
  define q where "q = expo x - 52"
  define y where "y = x / pow2 q"
  note s = float64_scaled[OF nz, folded q_def, folded y_def]
  have ypos: "0 < y" using assms by (simp add: y_def)
  have y: "2 ^ 52 \<le> y" "y \<le> 2 ^ 53" using s(2,3) ypos by simp_all
  have y1: "of_int (2 ^ 52) \<le> y" and y2: "y \<le> of_int (2 ^ 53)" using y by simp_all
  have m1: "2 ^ 52 \<le> rne y" using rne_mono[OF y1] unfolding rne_of_int .
  have m2: "rne y \<le> 2 ^ 53" using rne_mono[OF y2] unfolding rne_of_int .
  have "pow2 (expo x) = 2 ^ 52 * pow2 q"
    using pow2_add[of 52 q] by (simp add: q_def pow2_52)
  also have "\<dots> \<le> of_int (rne y) * pow2 q"
  proof (intro mult_right_mono)
    have "(of_int (2 ^ 52) :: rat) \<le> of_int (rne y)" using m1 by (simp only: of_int_le_iff)
    then show "(2 ^ 52 :: rat) \<le> of_int (rne y)" by simp
  qed simp
  finally show "pow2 (expo x) \<le> float64 x" by (simp add: s(1))
  have "of_int (rne y) * pow2 q \<le> 2 ^ 53 * pow2 q"
  proof (intro mult_right_mono)
    have "(of_int (rne y) :: rat) \<le> of_int (2 ^ 53)" using m2 by (simp only: of_int_le_iff)
    then show "(of_int (rne y) :: rat) \<le> 2 ^ 53" by simp
  qed simp
  also have "\<dots> = pow2 (expo x + 1)"
    using pow2_add[of 53 q] by (simp add: q_def pow2_53 add.commute)
  finally show "float64 x \<le> pow2 (expo x + 1)" by (simp add: s(1))
qed

lemma float64_pos: "0 < x \<Longrightarrow> 0 < float64 x"
  using float64_range(1)[of x] pow2_pos[of "expo x"] by linarith



lemma float64_fix:
  assumes m: "\<bar>m\<bar> \<le> 2 ^ 53"
  shows "float64 (of_int m * pow2 q) = of_int m * pow2 q"
proof (cases "m = 0")
  case True
  then show ?thesis by simp
next
  case False
  define v where "v = of_int m * pow2 q"
  have nz: "v \<noteq> 0" using False by (simp add: v_def)
  define e where "e = expo v"
  from expo_bounds[OF nz] have lo: "pow2 e \<le> \<bar>v\<bar>" by (simp add: e_def)
  have av: "\<bar>v\<bar> = of_int \<bar>m\<bar> * pow2 q" by (simp add: v_def abs_mult)
  have mr: "(of_int \<bar>m\<bar> :: rat) \<le> of_int (2 ^ 53)" using m by (simp only: of_int_le_iff)
  have "\<bar>v\<bar> \<le> of_int (2 ^ 53) * pow2 q"
    unfolding av using mr by (intro mult_right_mono) simp_all
  also have "\<dots> = pow2 (53 + q)" using pow2_add[of 53 q] by (simp add: pow2_53)
  finally have "pow2 e \<le> pow2 (53 + q)" using lo by linarith
  then have eq: "e \<le> 53 + q" by (rule pow2_le_cancel)
  have sc: "v / pow2 (e - 52) = of_int m * pow2 (q - (e - 52))"
    by (simp add: v_def pow2_diff)
  have f: "float64 v = of_int (rne (v / pow2 (e - 52))) * pow2 (e - 52)"
    using float64_scaled(1)[OF nz] by (simp add: e_def)
  show ?thesis
  proof (cases "e = 53 + q")
    case True
    have "pow2 53 * pow2 q \<le> of_int \<bar>m\<bar> * pow2 q"
      using lo pow2_add[of 53 q] by (simp add: av True)
    then have "pow2 53 \<le> of_int \<bar>m\<bar>" by simp
    then have "(of_int (2 ^ 53) :: rat) \<le> of_int \<bar>m\<bar>" by (simp add: pow2_53)
    then have "2 ^ 53 \<le> \<bar>m\<bar>" by (simp only: of_int_le_iff)
    with m have "\<bar>m\<bar> = 2 ^ 53" by simp
    then have mm: "m = 2 * 2 ^ 52 \<or> m = 2 * (- (2 ^ 52))" by (auto simp: abs_if split: if_splits)
    have k: "q - (e - 52) = - 1" using True by simp
    have h: "pow2 (- 1) = 1 / 2" by (simp add: pow2_def)
    have q1: "pow2 (e - 52) = 2 * pow2 q"
      using pow2_add[of 1 q] True by (simp add: pow2_def)
    from mm show ?thesis
    proof
      assume a: "m = 2 * 2 ^ 52"
      have "v / pow2 (e - 52) = of_int (2 ^ 52)" unfolding sc k h by (simp add: a)
      then have "rne (v / pow2 (e - 52)) = 2 ^ 52" by (simp only: rne_of_int)
      then show ?thesis using f by (simp add: q1 v_def a)
    next
      assume a: "m = 2 * (- (2 ^ 52))"
      have "v / pow2 (e - 52) = of_int (- (2 ^ 52))" unfolding sc k h by (simp add: a)
      then have "rne (v / pow2 (e - 52)) = - (2 ^ 52)" by (simp only: rne_of_int)
      then show ?thesis using f by (simp add: q1 v_def a)
    qed
  next
    case False
    with eq have k: "0 \<le> q - (e - 52)" by simp
    have "v / pow2 (e - 52) = of_int (m * 2 ^ nat (q - (e - 52)))"
      unfolding sc by (simp add: pow2_of_int_power[OF k])
    then have "rne (v / pow2 (e - 52)) = m * 2 ^ nat (q - (e - 52))" by (simp only: rne_of_int)
    then have "float64 v = of_int (m * 2 ^ nat (q - (e - 52))) * pow2 (e - 52)"
      using f by simp
    also have "\<dots> = of_int m * (pow2 (q - (e - 52)) * pow2 (e - 52))"
      by (simp add: pow2_of_int_power[OF k])
    also have "pow2 (q - (e - 52)) * pow2 (e - 52) = pow2 q"
      using pow2_add[of "q - (e - 52)" "e - 52"] by simp
    finally show ?thesis by (simp add: v_def)
  qed
qed

lemma rne_abs_bound:
  assumes "\<bar>y\<bar> \<le> of_int k"
  shows "\<bar>rne y\<bar> \<le> k"
proof -
  have "y \<le> of_int k" and "of_int (- k) \<le> y" using assms by (simp_all add: abs_le_iff)
  from rne_mono[OF this(1)] rne_mono[OF this(2)] show ?thesis
    unfolding rne_of_int by (simp add: abs_le_iff)
qed

lemma float64_idem [simp]: "float64 (float64 x) = float64 x"
proof (cases "x = 0")
  case True
  then show ?thesis by simp
next
  case False
  have "\<bar>x / pow2 (expo x - 52)\<bar> \<le> of_int (2 ^ 53)"
    using float64_scaled(3)[OF False] by simp
  then have "\<bar>rne (x / pow2 (expo x - 52))\<bar> \<le> 2 ^ 53" by (rule rne_abs_bound)
  from float64_fix[OF this, of "expo x - 52"] show ?thesis
    by (simp only: float64_scaled(1)[OF False, symmetric])
qed

lemma float64_of_nat_small: "n \<le> 2 ^ 53 \<Longrightarrow> float64 (of_nat n) = of_nat n"
  using float64_fix[of "int n" 0] by simp

lemma float64_1 [simp]: "float64 1 = 1"
  using float64_of_nat_small[of 1] by simp

section \<open>The sorted payoff list and the winning arms\<close>

lemma sorted_le_last: "sorted ys \<Longrightarrow> y \<in> set ys \<Longrightarrow> y \<le> last ys"
  by (induction ys) auto

lemma sort_reverse_eq_Nil [simp]: "sort_reverse xs = [] \<longleftrightarrow> xs = []"
proof -
  have "length (sort_reverse xs) = length xs" by (simp add: sort_reverse_def)
  then show ?thesis by (metis length_0_conv)
qed

lemma set_sort_reverse [simp]: "set (sort_reverse xs) = set xs"
  by (simp add: sort_reverse_def)

lemma mset_sort_reverse [simp]: "mset (sort_reverse xs) = mset xs"
  by (simp add: sort_reverse_def)

lemma hd_sort_reverse_greatest:
  assumes "xs \<noteq> []" "x \<in> set xs"
  shows "x \<le> hd (sort_reverse xs)"
proof -
  have "hd (sort_reverse xs) = last (sort xs)" by (simp add: sort_reverse_def hd_rev)
  moreover have "x \<le> last (sort xs)" using assms(2) by (intro sorted_le_last) simp_all
  ultimately show ?thesis by simp
qed

lemma fst_hd_sort_reverse:
  assumes "xs \<noteq> []"
  shows "fst (hd (sort_reverse xs)) = Max (fst ` set xs)"
proof -
  have ne: "sort_reverse xs \<noteq> []" using assms by simp
  have mem: "hd (sort_reverse xs) \<in> set xs" using hd_in_set[OF ne] by simp
  show ?thesis
  proof (rule Max_eqI[symmetric])
    show "finite (fst ` set xs)" by simp
    show "fst (hd (sort_reverse xs)) \<in> fst ` set xs" using mem by (rule imageI)
    fix a assume "a \<in> fst ` set xs"
    then obtain x where x: "x \<in> set xs" "a = fst x" by auto
    from hd_sort_reverse_greatest[OF assms x(1)] show "a \<le> fst (hd (sort_reverse xs))"
      by (auto simp: x(2) less_eq_prod_def)
  qed
qed

lemma fst_payoff_name_list: "fst ` set (payoff_name_list arms) = set (map (\<lambda>(arm_name, sampled_arm). avg_payoff sampled_arm) arms)"
  by (force simp: payoff_name_list_def)

lemma payoff_name_list_eq_Nil [simp]: "payoff_name_list arms = [] \<longleftrightarrow> arms = []"
  by (simp add: payoff_name_list_def)

lemma sorted_payoffs_Cons:
  assumes "arms \<noteq> []"
  obtains nm rest where "sort_reverse (payoff_name_list arms) = (max_avg_payoff arms, nm) # rest"
proof -
  have ne: "sort_reverse (payoff_name_list arms) \<noteq> []" using assms by simp
  then obtain p rest where c: "sort_reverse (payoff_name_list arms) = p # rest"
    by (cases "sort_reverse (payoff_name_list arms)") auto
  have "fst p = max_avg_payoff arms"
    using fst_hd_sort_reverse[of "payoff_name_list arms"] assms
    by (simp add: c max_avg_payoff_def fst_payoff_name_list)
  then have "sort_reverse (payoff_name_list arms) = (max_avg_payoff arms, snd p) # rest"
    using c by (cases p) simp
  then show ?thesis by (rule that)
qed

lemma winning_names_mset:
  "mset (map snd (filter (\<lambda>p. fst p = b) (sort_reverse (payoff_name_list arms))))
   = mset (map fst (filter (\<lambda>(arm_name, sampled_arm). avg_payoff sampled_arm = b) arms))"
proof -
  have "mset (map snd (filter (\<lambda>p. fst p = b) (sort_reverse (payoff_name_list arms))))
        = image_mset snd (filter_mset (\<lambda>p. fst p = b) (mset (payoff_name_list arms)))"
    by (simp add: mset_filter)
  also have "\<dots> = mset (map snd (filter (\<lambda>p. fst p = b) (payoff_name_list arms)))"
    by (simp add: mset_filter)
  also have "map snd (filter (\<lambda>p. fst p = b) (payoff_name_list arms))
             = map fst (filter (\<lambda>(arm_name, sampled_arm). avg_payoff sampled_arm = b) arms)"
    by (induction arms) (auto simp: payoff_name_list_def)
  finally show ?thesis .
qed


lemma update_fresh: "k \<notin> fst ` set d \<Longrightarrow> AList.update k v d = d @ [(k, v)]"
  by (induction d) auto

lemma set_allocations_fresh:
  "distinct ks \<Longrightarrow> set ks \<inter> fst ` set d = {} \<Longrightarrow>
   set_allocations ks v d = d @ map (\<lambda>k. (k, v)) ks"
proof (induction ks arbitrary: d)
  case Nil
  then show ?case by simp
next
  case (Cons k ks)
  from Cons.prems have k: "k \<notin> fst ` set d" "k \<notin> set ks" "distinct ks" by auto
  have "set ks \<inter> fst ` set (d @ [(k, v)]) = {}" using Cons.prems by auto
  from Cons.IH[OF k(3) this] show ?case by (simp add: update_fresh[OF k(1)])
qed

lemma set_allocations_dict:
  "distinct (map fst arms) \<Longrightarrow>
   set_allocations (map fst arms) v [] = map (\<lambda>(arm_name, sampled_arm). (arm_name, v)) arms"
  by (simp add: set_allocations_fresh case_prod_unfold comp_def)

lemma keys_set_allocations:
  "set (map fst (set_allocations ks v d)) = set (map fst d) \<union> set ks"
  by (induction ks arbitrary: d) (auto simp: dom_update)

lemma distinct_set_allocations:
  "distinct (map fst d) \<Longrightarrow> distinct (map fst (set_allocations ks v d))"
  by (induction ks arbitrary: d) (auto simp: distinct_update)

lemma add_winning_keys:
  "set ns \<subseteq> set (map fst d) \<Longrightarrow> \<exists>d'. add_winning ns w d = Inr d' \<and> map fst d' = map fst d"
proof (induction ns arbitrary: d)
  case Nil
  then show ?case by simp
next
  case (Cons n ns)
  from Cons.prems have n: "n \<in> set (map fst d)" by simp
  then obtain v where v: "map_of d n = Some v"
    by (cases "map_of d n") (auto simp: map_of_eq_None_iff)
  have k: "map fst (AList.update n (float64 (v + w)) d) = map fst d"
    using n by (simp add: update_keys)
  have "set ns \<subseteq> set (map fst (AList.update n (float64 (v + w)) d))"
    using Cons.prems by (simp only: k) simp
  from Cons.IH[OF this] show ?case by (simp add: v k)
qed

lemma update_present:
  "distinct (map fst d) \<Longrightarrow> map_of d k = Some v \<Longrightarrow>
   AList.update k (f v) d = map (\<lambda>(k', u). (k', if k' = k then f u else u)) d"
proof (induction d)
  case Nil
  then show ?case by simp
next
  case (Cons p d)
  obtain k' u where p: "p = (k', u)" by (cases p)
  show ?case
  proof (cases "k' = k")
    case True
    with Cons.prems p have "v = u" and nk: "k \<notin> fst ` set d" by auto
    have "map (\<lambda>(k', u). (k', if k' = k then f u else u)) d = d"
      using nk by (intro map_idI) force
    then show ?thesis using True p \<open>v = u\<close> by simp
  next
    case False
    with Cons show ?thesis by (simp add: p)
  qed
qed

lemma add_winning_dict:
  "distinct ns \<Longrightarrow> distinct (map fst d) \<Longrightarrow> set ns \<subseteq> set (map fst d) \<Longrightarrow>
   add_winning ns w d = Inr (map (\<lambda>(k, v). (k, if k \<in> set ns then float64 (v + w) else v)) d)"
proof (induction ns arbitrary: d)
  case Nil
  then show ?case by (simp add: case_prod_unfold)
next
  case (Cons n ns)
  from Cons.prems have n: "n \<in> set (map fst d)" "n \<notin> set ns" "distinct ns" by simp_all
  then obtain v where v: "map_of d n = Some v"
    by (cases "map_of d n") (auto simp: map_of_eq_None_iff)
  define d1 where "d1 = map (\<lambda>(k', u). (k', if k' = n then float64 (u + w) else u)) d"
  have u: "AList.update n (float64 (v + w)) d = d1"
    using update_present[OF Cons.prems(2) v, of "\<lambda>u. float64 (u + w)"] by (simp add: d1_def)
  have k: "map fst d1 = map fst d" by (simp add: d1_def case_prod_unfold comp_def)
  have "add_winning ns w d1 = Inr (map (\<lambda>(k, v). (k, if k \<in> set ns then float64 (v + w) else v)) d1)"
    using Cons.prems by (intro Cons.IH) (simp_all add: k)
  also have "map (\<lambda>(k, v). (k, if k \<in> set ns then float64 (v + w) else v)) d1
             = map (\<lambda>(k, v). (k, if k \<in> set (n # ns) then float64 (v + w) else v)) d"
    using n(2) by (auto simp: d1_def)
  finally show ?case by (simp add: v u)
qed


lemma float64_of_nat_nz: "0 < n \<Longrightarrow> float64 (of_nat n) \<noteq> 0"
  using float64_pos[of "of_nat n"] by simp

lemma allocate_arms_unfold:
  assumes "arms_sampled (historical_info self) = arms" "arms \<noteq> []"
  defines "W \<equiv> map snd (filter (\<lambda>p. fst p = max_avg_payoff arms)
                         (sort_reverse (payoff_name_list arms)))"
  shows "W \<noteq> []"
    and "allocate_arms self =
         add_winning W (float64 (float64 (1 - epsilon self) / float64 (of_nat (length W))))
           (set_allocations (map fst arms)
              (float64 (epsilon self / float64 (of_nat (length arms)))) [])"
proof -
  from sorted_payoffs_Cons[OF assms(2)] obtain nm rest
    where L: "sort_reverse (payoff_name_list arms) = (max_avg_payoff arms, nm) # rest" .
  show W: "W \<noteq> []" by (simp add: W_def L)
  then have lw: "0 < length W" by simp
  have la: "0 < length arms" using assms(2) by simp
  have F: "filter (\<lambda>p. fst p = max_avg_payoff arms) (sort_reverse (payoff_name_list arms)) \<noteq> []"
    using W by (simp add: W_def)
  show "allocate_arms self =
         add_winning W (float64 (float64 (1 - epsilon self) / float64 (of_nat (length W))))
           (set_allocations (map fst arms)
              (float64 (epsilon self / float64 (of_nat (length arms)))) [])"
    unfolding allocate_arms_def Let_def assms(1) num_arms_def
    using assms(2) F float64_of_nat_nz[OF lw] float64_of_nat_nz[OF la]
    by (simp add: L truediv_def W_def del: filter.simps)
qed

lemma winning_names:
  defines "W \<equiv> \<lambda>arms. map snd (filter (\<lambda>p. fst p = max_avg_payoff arms)
                         (sort_reverse (payoff_name_list arms)))"
  shows "mset (W arms) = mset (map fst (filter (\<lambda>(arm_name, sampled_arm). winning_arm arms sampled_arm) arms))"
  unfolding W_def winning_arm_def by (rule winning_names_mset)

lemma allocate_arms_keys:
  assumes "arms_sampled (historical_info self) \<noteq> []"
  shows "\<exists>d. allocate_arms self = Inr d
             \<and> set (map fst d) = set (map fst (arms_sampled (historical_info self)))
             \<and> distinct (map fst d)"
proof -
  define arms where "arms = arms_sampled (historical_info self)"
  define W where "W = map snd (filter (\<lambda>p. fst p = max_avg_payoff arms)
                         (sort_reverse (payoff_name_list arms))) "
  define d0 where "d0 = set_allocations (map fst arms)
              (float64 (epsilon self / float64 (of_nat (length arms)))) []"
  note u = allocate_arms_unfold[OF arms_def[symmetric] assms[folded arms_def], folded W_def, folded d0_def]
  have k0: "set (map fst d0) = set (map fst arms)" unfolding d0_def keys_set_allocations by simp
  have dist0: "distinct (map fst d0)" unfolding d0_def by (rule distinct_set_allocations) simp
  have "set W \<subseteq> set (map fst arms)"
    using mset_eq_setD[OF winning_names[of arms]] by (auto simp: W_def)
  then have "set W \<subseteq> set (map fst d0)" by (simp only: k0)
  from add_winning_keys[OF this] obtain d' where
    d': "add_winning W (float64 (float64 (1 - epsilon self) / float64 (of_nat (length W)))) d0 = Inr d'"
        "map fst d' = map fst d0" by blast
  have 1: "allocate_arms self = Inr d'" using u(2) d'(1) by simp
  have 2: "set (map fst d') = set (map fst arms)" using d'(2) k0 by metis
  have 3: "distinct (map fst d')" using d'(2) dist0 by metis
  from 1 2 3 show ?thesis unfolding arms_def by blast
qed

lemma allocate_arms_dict:
  assumes "arms_sampled (historical_info self) = arms" "arms \<noteq> []" "distinct (map fst arms)"
  shows "allocate_arms self =
         Inr (map (\<lambda>(arm_name, sampled_arm).
                (arm_name,
                 if winning_arm arms sampled_arm
                 then float64 (float64 (epsilon self / float64 (of_nat (length arms)))
                               + float64 (float64 (1 - epsilon self) / float64 (of_nat (num_winning arms))))
                 else float64 (epsilon self / float64 (of_nat (length arms))))) arms)"
proof -
  define W where "W = map snd (filter (\<lambda>p. fst p = max_avg_payoff arms)
                         (sort_reverse (payoff_name_list arms))) "
  define ea where "ea = float64 (epsilon self / float64 (of_nat (length arms)))"
  define wa where "wa = float64 (float64 (1 - epsilon self) / float64 (of_nat (length W)))"
  define d0 where "d0 = set_allocations (map fst arms) ea []"
  note u = allocate_arms_unfold[OF assms(1,2), folded W_def, folded ea_def wa_def, folded d0_def]
  have m: "mset W = mset (map fst (filter (\<lambda>(arm_name, sampled_arm). winning_arm arms sampled_arm) arms))"
    unfolding W_def by (rule winning_names)
  have lenW: "length W = num_winning arms"
    unfolding num_winning_def by (metis m size_mset length_map)
  have "distinct (map fst (filter (\<lambda>(arm_name, sampled_arm). winning_arm arms sampled_arm) arms))"
    using assms(3) by (rule distinct_map_filter)
  then have distW: "distinct W" using mset_eq_imp_distinct_iff[OF m] by simp
  have setW: "set W = fst ` {p \<in> set arms. winning_arm arms (snd p)}"
    using mset_eq_setD[OF m] by (auto simp: case_prod_unfold)
  have d0: "d0 = map (\<lambda>(arm_name, sampled_arm). (arm_name, ea)) arms"
    unfolding d0_def using assms(3) by (rule set_allocations_dict)
  have k0: "map fst d0 = map fst arms" by (simp add: d0 case_prod_unfold comp_def)
  have sub: "set W \<subseteq> set (map fst d0)" unfolding k0 setW by auto
  have "allocate_arms self = Inr (map (\<lambda>(k, v). (k, if k \<in> set W then float64 (v + wa) else v)) d0)"
    unfolding u(2) using distW assms(3) sub by (intro add_winning_dict) (simp_all add: k0)
  also have "map (\<lambda>(k, v). (k, if k \<in> set W then float64 (v + wa) else v)) d0
      = map (\<lambda>(arm_name, sampled_arm).
                (arm_name, if winning_arm arms sampled_arm then float64 (ea + wa) else ea)) arms"
  proof -
    have "\<And>p. p \<in> set arms \<Longrightarrow> (fst p \<in> set W) = winning_arm arms (snd p)"
    proof -
      fix p assume p: "p \<in> set arms"
      show "(fst p \<in> set W) = winning_arm arms (snd p)"
      proof
        assume "fst p \<in> set W"
        then obtain p' where p': "p' \<in> set arms" "winning_arm arms (snd p')" "fst p' = fst p"
          unfolding setW by auto
        from assms(3) p p'(1,3) have "p' = p" by (metis eq_key_imp_eq_value prod.collapse)
        with p'(2) show "winning_arm arms (snd p)" by simp
      next
        assume "winning_arm arms (snd p)"
        with p show "fst p \<in> set W" unfolding setW by auto
      qed
    qed
    then show ?thesis by (auto simp: d0 case_prod_unfold)
  qed
  finally show ?thesis unfolding ea_def wa_def lenW .
qed

section \<open>Accumulated rounding error of the allocations\<close>





section \<open>Further lemmas on the method\<close>


lemma map_of_map_dict:
  "distinct (map fst xs) \<Longrightarrow> (k, v) \<in> set xs \<Longrightarrow>
   map_of (map (\<lambda>(k, v). (k, f v)) xs) k = Some (f v)"
  by (simp add: map_of_map)










lemma dict_items_distinct: "distinct (map fst d) \<Longrightarrow> distinct d"
  by (simp add: distinct_map)

lemma max_avg_payoff_set:
  "set arms = set arms' \<Longrightarrow> max_avg_payoff arms = max_avg_payoff arms'"
  by (simp add: max_avg_payoff_def)

lemma num_winning_set:
  assumes "distinct arms" "distinct arms'" "set arms = set arms'"
  shows "num_winning arms = num_winning arms'"
proof -
  have w: "winning_arm arms = winning_arm arms'"
    by (simp add: fun_eq_iff winning_arm_def max_avg_payoff_set[OF assms(3)])
  show ?thesis
    unfolding num_winning_def w
    using assms by (simp add: distinct_length_filter)
qed

lemma length_set:
  assumes "distinct arms" "distinct arms'" "set arms = set arms'"
  shows "length arms = length arms'"
proof -
  have "length arms = card (set arms)" using assms(1) by (simp add: distinct_card)
  also have "\<dots> = card (set arms')" by (simp only: assms(3))
  also have "\<dots> = length arms'" using assms(2) by (simp add: distinct_card)
  finally show ?thesis .
qed









section \<open>The claims of the specification\<close>





text \<open>
  Claim C3. On an empty \<open>arms_sampled\<close> the call raises the
  \<open>ValueError('sample_arms are empty!')\<close> of the validation step (the specification's
  EmptyInputError): no mapping is returned, and at the raise the list and the dict of
  the body are still empty, so nothing was computed. On a non-empty \<open>arms_sampled\<close> the
  call does not raise this error, and returns a mapping.
\<close>

theorem empty_input_error:
  "(arms_sampled (historical_info self) = []
      \<longrightarrow> allocate_arms self = Inl (ValueError ''sample_arms are empty!'')
          \<and> allocate_arms_call self =
              (Inl (ValueError ''sample_arms are empty!''),
               \<lparr>receiver = self, avg_payoff_arm_name_list = [], arms_to_allocations = []\<rparr>))
   \<and> (arms_sampled (historical_info self) \<noteq> []
      \<longrightarrow> allocate_arms self \<noteq> Inl (ValueError ''sample_arms are empty!'')
          \<and> (\<exists>d. allocate_arms self = Inr d))"
proof (intro conjI impI)
  assume e: "arms_sampled (historical_info self) = []"
  then show "allocate_arms self = Inl (ValueError ''sample_arms are empty!'')"
    by (simp add: allocate_arms_def)
  from e show "allocate_arms_call self =
              (Inl (ValueError ''sample_arms are empty!''),
               \<lparr>receiver = self, avg_payoff_arm_name_list = [], arms_to_allocations = []\<rparr>)"
    by (simp add: allocate_arms_call_def)
next
  assume "arms_sampled (historical_info self) \<noteq> []"
  from allocate_arms_keys[OF this] obtain d where d: "allocate_arms self = Inr d" by blast
  then show "allocate_arms self \<noteq> Inl (ValueError ''sample_arms are empty!'')" by simp
  from d show "\<exists>d. allocate_arms self = Inr d" by blast
qed

theorem empty_input_error_witness:
  "allocate_arms \<lparr>historical_info = \<lparr>arms_sampled = []\<rparr>, epsilon = 1 / 10\<rparr>
     = Inl (ValueError ''sample_arms are empty!'')
   \<and> arms_sampled (historical_info doc_example) \<noteq> []
   \<and> allocate_arms doc_example \<noteq> Inl (ValueError ''sample_arms are empty!'')"
  using empty_input_error[of "\<lparr>historical_info = \<lparr>arms_sampled = []\<rparr>, epsilon = 1 / 10\<rparr>"]
        empty_input_error[of doc_example]
  by (simp add: doc_example_def doc_arms_def)

text \<open>
  Claim C4. On a non-empty \<open>arms_sampled\<close> the keys of the returned mapping are exactly
  the arm names of the input, and each occurs once.
\<close>

theorem result_keys:
  assumes "arms_sampled (historical_info self) \<noteq> []"
  shows "\<exists>d. allocate_arms self = Inr d
             \<and> set (map fst d) = set (map fst (arms_sampled (historical_info self)))
             \<and> distinct (map fst d)"
  using assms by (rule allocate_arms_keys)

theorem result_keys_witness:
  "arms_sampled (historical_info doc_example) \<noteq> []
   \<and> (\<exists>d. allocate_arms doc_example = Inr d
          \<and> set (map fst d) = {''arm1'', ''arm2'', ''arm3''}
          \<and> distinct (map fst d))"
proof -
  have ne: "arms_sampled (historical_info doc_example) \<noteq> []"
    by (simp add: doc_example_def doc_arms_def)
  from result_keys[OF ne] show ?thesis
    by (simp add: doc_example_def doc_arms_def)
qed





text \<open>
  Claim C7. The example of the docstring: \<open>arm1\<close> and \<open>arm2\<close> with 5 wins, no loss and
  a total of 10, \<open>arm3\<close> with a total of 0, and the float \<open>0.12\<close> as epsilon. Whatever
  the iteration order of the dict, the call returns 0.48 for \<open>arm1\<close> and \<open>arm2\<close> and
  0.04 for \<open>arm3\<close> within \<open>1e-9\<close>: the floats nearest to 0.48 and 0.04.
\<close>

theorem docstring_example:
  assumes "distinct (map fst arms)" and "set arms = set doc_arms"
  shows "\<exists>d v1 v2 v3.
           allocate_arms \<lparr>historical_info = \<lparr>arms_sampled = arms\<rparr>,
                          epsilon = float64 (12 / 100)\<rparr> = Inr d
           \<and> map_of d ''arm1'' = Some v1 \<and> map_of d ''arm2'' = Some v2
           \<and> map_of d ''arm3'' = Some v3
           \<and> v1 = float64 (48 / 100) \<and> v2 = float64 (48 / 100) \<and> v3 = float64 (4 / 100)
           \<and> \<bar>v1 - 48 / 100\<bar> \<le> 1 / 10 ^ 9 \<and> \<bar>v2 - 48 / 100\<bar> \<le> 1 / 10 ^ 9
           \<and> \<bar>v3 - 4 / 100\<bar> \<le> 1 / 10 ^ 9"
proof -
  define self where "self = \<lparr>historical_info = \<lparr>arms_sampled = arms\<rparr>,
                          epsilon = float64 (12 / 100)\<rparr>"
  have a: "arms_sampled (historical_info self) = arms" and e: "epsilon self = float64 (12 / 100)"
    by (simp_all add: self_def)
  have dd: "distinct doc_arms" by (simp add: doc_arms_def)
  have da: "distinct arms" using assms(1) by (rule dict_items_distinct)
  have "set doc_arms \<noteq> {}" by (simp add: doc_arms_def)
  then have ne: "arms \<noteq> []" using assms(2) by auto
  have n: "length arms = 3"
    using length_set[OF da dd assms(2)] by (simp add: doc_arms_def)
  have k0: "num_winning doc_arms = 2" by code_simp
  have k: "num_winning arms = 2" using num_winning_set[OF da dd assms(2)] k0 by simp
  have m0: "max_avg_payoff doc_arms = 1 / 2" by code_simp
  have m: "max_avg_payoff arms = 1 / 2" using max_avg_payoff_set[OF assms(2)] m0 by simp
  have p1: "avg_payoff \<lparr>win = 5, loss = 0, total = 10\<rparr> = 1 / 2" by code_simp
  have p3: "avg_payoff \<lparr>win = 0, loss = 0, total = 0\<rparr> = 0" by code_simp
  have w1: "winning_arm arms \<lparr>win = 5, loss = 0, total = 10\<rparr>"
    by (simp add: winning_arm_def p1 m)
  have w3: "\<not> winning_arm arms \<lparr>win = 0, loss = 0, total = 0\<rparr>"
    by (simp add: winning_arm_def p3 m)
  have v1: "float64 (float64 (float64 (12 / 100) / float64 (of_nat 3))
                     + float64 (float64 (1 - float64 (12 / 100)) / float64 (of_nat 2)))
            = float64 (48 / 100)" by code_simp
  have v3: "float64 (float64 (12 / 100) / float64 (of_nat 3)) = float64 (4 / 100)" by code_simp
  have t1: "\<bar>float64 (48 / 100) - 48 / 100\<bar> \<le> 1 / 10 ^ 9" by code_simp
  have t3: "\<bar>float64 (4 / 100) - 4 / 100\<bar> \<le> 1 / 10 ^ 9" by code_simp
  define f where "f = (\<lambda>sampled_arm.
       if winning_arm arms sampled_arm
       then float64 (float64 (float64 (12 / 100) / float64 (of_nat 3))
                     + float64 (float64 (1 - float64 (12 / 100)) / float64 (of_nat 2)))
       else float64 (float64 (12 / 100) / float64 (of_nat 3)))"
  have d: "allocate_arms self = Inr (map (\<lambda>(arm_name, sampled_arm). (arm_name, f sampled_arm)) arms)"
    using allocate_arms_dict[OF a ne assms(1)] unfolding e n k f_def .
  have i1: "(''arm1'', \<lparr>win = 5, loss = 0, total = 10\<rparr>) \<in> set arms"
    and i2: "(''arm2'', \<lparr>win = 5, loss = 0, total = 10\<rparr>) \<in> set arms"
    and i3: "(''arm3'', \<lparr>win = 0, loss = 0, total = 0\<rparr>) \<in> set arms"
    unfolding assms(2) by (simp_all add: doc_arms_def)
  have f1: "f \<lparr>win = 5, loss = 0, total = 10\<rparr> = float64 (48 / 100)"
    unfolding f_def using w1 v1 by (simp only: if_True)
  have f3: "f \<lparr>win = 0, loss = 0, total = 0\<rparr> = float64 (4 / 100)"
    unfolding f_def using w3 v3 by (simp only: if_False)
  have l1: "map_of (map (\<lambda>(arm_name, sampled_arm). (arm_name, f sampled_arm)) arms) ''arm1''
            = Some (float64 (48 / 100))"
    using map_of_map_dict[OF assms(1) i1, of f] by (simp only: f1)
  have l2: "map_of (map (\<lambda>(arm_name, sampled_arm). (arm_name, f sampled_arm)) arms) ''arm2''
            = Some (float64 (48 / 100))"
    using map_of_map_dict[OF assms(1) i2, of f] by (simp only: f1)
  have l3: "map_of (map (\<lambda>(arm_name, sampled_arm). (arm_name, f sampled_arm)) arms) ''arm3''
            = Some (float64 (4 / 100))"
    using map_of_map_dict[OF assms(1) i3, of f] by (simp only: f3)
  show ?thesis
    using d[unfolded self_def] l1 l2 l3 t1 t3
    by (intro exI conjI) (assumption | rule refl)+
qed

theorem docstring_example_witness:
  "distinct (map fst doc_arms)
   \<and> (\<exists>d. allocate_arms doc_example = Inr d
          \<and> map_of d ''arm1'' = Some (float64 (48 / 100))
          \<and> map_of d ''arm2'' = Some (float64 (48 / 100))
          \<and> map_of d ''arm3'' = Some (float64 (4 / 100)))
   \<and> float64 (48 / 100) = 8646911284551352 / 18014398509481984
   \<and> float64 (4 / 100) = 5764607523034235 / 144115188075855872"
proof -
  have di: "distinct (map fst doc_arms)" by (simp add: doc_arms_def)
  from docstring_example[OF di refl] obtain d v1 v2 v3 where
    r: "allocate_arms \<lparr>historical_info = \<lparr>arms_sampled = doc_arms\<rparr>,
                          epsilon = float64 (12 / 100)\<rparr> = Inr d"
       "map_of d ''arm1'' = Some v1" "map_of d ''arm2'' = Some v2" "map_of d ''arm3'' = Some v3"
       "v1 = float64 (48 / 100)" "v2 = float64 (48 / 100)" "v3 = float64 (4 / 100)"
    by (elim exE conjE)
  have x: "\<exists>d. allocate_arms doc_example = Inr d
          \<and> map_of d ''arm1'' = Some (float64 (48 / 100))
          \<and> map_of d ''arm2'' = Some (float64 (48 / 100))
          \<and> map_of d ''arm3'' = Some (float64 (4 / 100))"
    unfolding doc_example_def
    using r(1) r(2)[unfolded r(5)] r(3)[unfolded r(6)] r(4)[unfolded r(7)]
    by (intro exI conjI) assumption+
  have f1: "float64 (48 / 100) = 8646911284551352 / 18014398509481984" by code_simp
  have f3: "float64 (4 / 100) = 5764607523034235 / 144115188075855872" by code_simp
  from di x f1 f3 show ?thesis by (intro conjI)
qed








end
